theory Spec2Isabelle
  imports Main "HOL-Library.Word" "HOL-Library.Multiset"
begin

unbundle bit_operations_syntax

section \<open>Machine types and library functions\<close>

text \<open>
  The C code is written against GLib. Its integer types are fixed-width:
  \<^verbatim>\<open>gint\<close> and \<^verbatim>\<open>guint\<close> are 32 bits, \<^verbatim>\<open>guint64\<close> and \<^verbatim>\<open>gsize\<close> are 64 bits.
  A \<^verbatim>\<open>gint\<close> is read as a signed number with \<open>sint\<close>; subtraction wraps around
  (two's complement), and the conversion of a \<^verbatim>\<open>guint64\<close> to a \<^verbatim>\<open>gint\<close> keeps the
  low 32 bits (\<open>ucast\<close>).

  A C string is the list of its bytes before the terminating NUL; a pointer that may
  be \<^verbatim>\<open>NULL\<close> is an \<open>option\<close>. A \<^verbatim>\<open>NULL\<close>-terminated array is the list of
  its elements before the terminator.
\<close>

type_synonym gint = "32 word"
type_synonym guint = "32 word"
type_synonym guint64 = "64 word"
type_synonym gsize = "64 word"

text \<open>
  GLib's \<^verbatim>\<open>g_str_is_ascii\<close>: a string is pure ASCII when no byte has its high bit
  set. The library walks the bytes and tests each against \<^verbatim>\<open>0x80\<close>.
\<close>

fun g_str_is_ascii :: "string \<Rightarrow> bool" where
  "g_str_is_ascii [] = True"
| "g_str_is_ascii (c # cs) =
     (if (of_char c :: nat) AND 0x80 \<noteq> 0 then False else g_str_is_ascii cs)"

text \<open>
  libc's \<^verbatim>\<open>strcmp\<close> compares byte by byte, as unsigned values; only the sign of
  its result is specified, so the model returns \<open>-1\<close>, \<open>0\<close> or \<open>1\<close>.
  GLib's \<^verbatim>\<open>g_strcmp0\<close> extends it to \<^verbatim>\<open>NULL\<close>, which sorts before every string.
\<close>

fun strcmp :: "string \<Rightarrow> string \<Rightarrow> int" where
  "strcmp [] [] = 0"
| "strcmp [] (y # ys) = - 1"
| "strcmp (x # xs) [] = 1"
| "strcmp (x # xs) (y # ys) =
     (if x = y then strcmp xs ys
      else if (of_char x :: nat) < of_char y then - 1 else 1)"

fun g_strcmp0 :: "string option \<Rightarrow> string option \<Rightarrow> gint" where
  "g_strcmp0 None None = 0"
| "g_strcmp0 None (Some s2) = - 1"
| "g_strcmp0 (Some s1) None = 1"
| "g_strcmp0 (Some s1) (Some s2) = word_of_int (strcmp s1 s2)"

text \<open>
  A \<^verbatim>\<open>GHashTable\<close> from ref names to nullable checksums is an association list;
  a key is held once, so the size counts the distinct keys. \<^verbatim>\<open>g_hash_table_size\<close>
  returns a \<^verbatim>\<open>guint\<close>.
\<close>

type_synonym GHashTable = "(string \<times> string option) list"

definition g_hash_table_size :: "GHashTable \<Rightarrow> guint" where
  "g_hash_table_size tbl = word_of_nat (length (remdups (map fst tbl)))"



text \<open>
  One sort that meets the contract, for running the functions on concrete inputs: the
  insertion sort.
\<close>

fun ptr_array_insert :: "('a \<Rightarrow> 'a \<Rightarrow> gint) \<Rightarrow> 'a \<Rightarrow> 'a list \<Rightarrow> 'a list" where
  "ptr_array_insert cmp x [] = [x]"
| "ptr_array_insert cmp x (y # ys) =
     (if sint (cmp x y) \<le> 0 then x # y # ys else y # ptr_array_insert cmp x ys)"

definition insertion_sort :: "('a \<Rightarrow> 'a \<Rightarrow> gint) \<Rightarrow> 'a list \<Rightarrow> 'a list" where
  "insertion_sort cmp xs = foldr (ptr_array_insert cmp) xs []"

section \<open>Ref validation (ostree-repo-finder.c)\<close>

definition is_valid_ref_name :: "string option \<Rightarrow> bool" where
  "is_valid_ref_name ref_name =
     (case ref_name of
        None \<Rightarrow> False
      | Some s \<Rightarrow> s \<noteq> [] \<and> g_str_is_ascii s)"

text \<open>The loop of \<^verbatim>\<open>is_valid_ref_array\<close> over the elements before the terminator.\<close>

fun is_valid_ref_array_loop :: "string list \<Rightarrow> bool" where
  "is_valid_ref_array_loop [] = True"
| "is_valid_ref_array_loop (r # rs) =
     (if \<not> is_valid_ref_name (Some r) then False else is_valid_ref_array_loop rs)"

definition is_valid_ref_array :: "string list option \<Rightarrow> bool" where
  "is_valid_ref_array refs =
     (case refs of
        None \<Rightarrow> False
      | Some [] \<Rightarrow> False
      | Some rs \<Rightarrow> is_valid_ref_array_loop rs)"

section \<open>Results and their ordering (ostree-repo-finder.c)\<close>

text \<open>
  Of an \<^verbatim>\<open>OstreeRemote\<close> the code reads and writes the name, the key-file group and
  the options stored under that group. The field names carry the prefix
  \<open>remote_\<close>.
\<close>

record OstreeRemote =
  remote_name :: "string option"
  remote_group :: "string option"
  remote_options :: "(string \<times> string) list"

text \<open>
  \<^verbatim>\<open>OstreeRepoFinderResult\<close>. The third field is a \<^verbatim>\<open>GHashTable\<close> in
  ostree-repo-finder.c and its header, while the two finders pass the
  \<^verbatim>\<open>NULL\<close>-terminated array of the refs they support in that position; the record
  leaves the type of the field open, and each function fixes it to what its source
  file uses.
\<close>

record 'r OstreeRepoFinderResult =
  remote :: OstreeRemote
  priority :: gint
  ref_to_checksum :: 'r
  summary_last_modified :: guint64

definition ostree_repo_finder_result_compare ::
  "GHashTable OstreeRepoFinderResult option \<Rightarrow> GHashTable OstreeRepoFinderResult option \<Rightarrow> gint" where
  "ostree_repo_finder_result_compare a' b' =
     (case a' of
        None \<Rightarrow> 0
      | Some a \<Rightarrow>
          (case b' of
             None \<Rightarrow> 0
           | Some b \<Rightarrow>
               if priority a \<noteq> priority b then priority a - priority b
               else if summary_last_modified a \<noteq> 0 \<and> summary_last_modified b \<noteq> 0 \<and>
                       summary_last_modified a \<noteq> summary_last_modified b
                 then ucast (summary_last_modified a - summary_last_modified b)
               else
                 let a_n_refs = g_hash_table_size (ref_to_checksum a);
                     b_n_refs = g_hash_table_size (ref_to_checksum b)
                 in if a_n_refs \<noteq> b_n_refs then a_n_refs - b_n_refs
                    else g_strcmp0 (remote_name (remote a)) (remote_name (remote b))))"

definition sort_results_cb ::
  "GHashTable OstreeRepoFinderResult \<Rightarrow> GHashTable OstreeRepoFinderResult \<Rightarrow> gint" where
  "sort_results_cb result_a result_b =
     ostree_repo_finder_result_compare (Some result_a) (Some result_b)"

section \<open>Resolving with several finders (ostree-repo-finder.c)\<close>

text \<open>
  A finder's asynchronous operation ends with either a \<^verbatim>\<open>GError\<close> (its message)
  or an array of results: \<open>Inl\<close> is the error. The assertion in
  \<^verbatim>\<open>resolve_all_cb\<close> that exactly one of the two is set holds by the type.
\<close>

type_synonym GError = string

type_synonym finder_outcome = "GError + GHashTable OstreeRepoFinderResult list"

text \<open>
  \<^verbatim>\<open>ResolveAllData\<close>; \<open>results\<close> is \<open>None\<close> once the pointer has been stolen
  for the task's result.
\<close>

record ResolveAllData =
  n_finders_pending :: gsize
  results :: "GHashTable OstreeRepoFinderResult list option"

text \<open>
  The \<^verbatim>\<open>GTask\<close> of one \<^verbatim>\<open>resolve_all\<close> call: its task data, and the values handed
  to \<^verbatim>\<open>g_task_return_pointer\<close> so far, oldest first. The code never returns an
  error through this task.
\<close>

record ResolveAllTask =
  task_data :: ResolveAllData
  task_returned :: "GHashTable OstreeRepoFinderResult list list"

text \<open>
  Two ways in which the code stops short. \<open>ReturnIfFail\<close> is a failed
  \<^verbatim>\<open>g_return_if_fail\<close> check, with the checked expression: GLib logs a critical
  message and the function, which returns nothing, returns at once; no \<^verbatim>\<open>GError\<close> is
  built, and since the checks stand before \<^verbatim>\<open>g_task_new\<close> there is no task, so that
  the caller's callback is never invoked. \<open>NullDereference\<close> is the read of
  \<^verbatim>\<open>data->results->len\<close> when \<^verbatim>\<open>data->results\<close> is \<^verbatim>\<open>NULL\<close>, which ends the
  process.
\<close>

datatype resolve_all_error = ReturnIfFail string | NullDereference

text \<open>
  \<^verbatim>\<open>array_concatenate_steal\<close>. On a \<^verbatim>\<open>NULL\<close> array every \<^verbatim>\<open>g_ptr_array_add\<close>
  fails its own check and adds nothing.
\<close>

definition array_concatenate_steal :: "'a list option \<Rightarrow> 'a list \<Rightarrow> 'a list option" where
  "array_concatenate_steal array to_concatenate =
     foldl (\<lambda>arr x. case arr of None \<Rightarrow> None | Some xs \<Rightarrow> Some (xs @ [x])) array to_concatenate"

type_synonym results_sort =
  "(GHashTable OstreeRepoFinderResult \<Rightarrow> GHashTable OstreeRepoFinderResult \<Rightarrow> gint) \<Rightarrow>
   GHashTable OstreeRepoFinderResult list \<Rightarrow> GHashTable OstreeRepoFinderResult list"

text \<open>
  \<^verbatim>\<open>resolve_all_finished_one\<close>; \<open>ptr_sort\<close> stands for \<^verbatim>\<open>g_ptr_array_sort\<close>. The debug
  message it builds is left out, but not the read of the array's length for it.
\<close>

definition resolve_all_finished_one ::
  "results_sort \<Rightarrow> ResolveAllTask \<Rightarrow> resolve_all_error + ResolveAllTask" where
  "resolve_all_finished_one ptr_sort task =
     (let data = (task_data task)\<lparr>n_finders_pending := n_finders_pending (task_data task) - 1\<rparr>
      in if n_finders_pending data = 0
         then (case results data of
                 None \<Rightarrow> Inl NullDereference
               | Some rs \<Rightarrow>
                   Inr \<lparr>task_data = data\<lparr>results := None\<rparr>,
                        task_returned = task_returned task @ [ptr_sort sort_results_cb rs]\<rparr>)
         else Inr (task\<lparr>task_data := data\<rparr>))"

definition resolve_all_cb ::
  "results_sort \<Rightarrow> ResolveAllTask \<Rightarrow> finder_outcome \<Rightarrow> resolve_all_error + ResolveAllTask" where
  "resolve_all_cb ptr_sort task outcome =
     (case outcome of
        Inl local_error \<Rightarrow> resolve_all_finished_one ptr_sort task
      | Inr rs \<Rightarrow>
          resolve_all_finished_one ptr_sort
            (task\<lparr>task_data := (task_data task)
               \<lparr>results := array_concatenate_steal (results (task_data task)) rs\<rparr>\<rparr>))"

text \<open>
  An \<^verbatim>\<open>OstreeRepoFinder\<close> as \<^verbatim>\<open>resolve_all\<close> meets it: the name of its type, for
  the debug message, and what its \<^verbatim>\<open>resolve_async\<close> does with the callback before
  it returns. \<open>Some outcome\<close>: the implementation invokes the callback with that
  outcome before it returns. \<open>None\<close>: the completion is delivered later from the main
  loop, as every implementation built on \<^verbatim>\<open>GTask\<close> does, among them the two finders
  of this repository.
\<close>

record OstreeRepoFinder =
  finder_type_name :: string
  completes_in_resolve_async :: "finder_outcome option"

text \<open>
  The loop of \<^verbatim>\<open>ostree_repo_finder_resolve_all_async\<close> that starts the finders:
  each iteration calls the finder's \<^verbatim>\<open>resolve_async\<close>, inside which the callback
  may already run, and then increments the counter. The first component is the log of
  the finders started so far.
\<close>

fun resolve_all_start ::
  "results_sort \<Rightarrow> OstreeRepoFinder list \<Rightarrow>
   OstreeRepoFinder list \<times> (resolve_all_error + ResolveAllTask) \<Rightarrow>
   OstreeRepoFinder list \<times> (resolve_all_error + ResolveAllTask)" where
  "resolve_all_start ptr_sort [] acc = acc"
| "resolve_all_start ptr_sort (finder # finders) (started, Inl e) = (started, Inl e)"
| "resolve_all_start ptr_sort (finder # finders) (started, Inr task) =
     (case (case completes_in_resolve_async finder of
              None \<Rightarrow> Inr task
            | Some outcome \<Rightarrow> resolve_all_cb ptr_sort task outcome) of
        Inl e \<Rightarrow> (started @ [finder], Inl e)
      | Inr task' \<Rightarrow>
          resolve_all_start ptr_sort finders
            (started @ [finder],
             Inr (task'\<lparr>task_data := (task_data task')
                    \<lparr>n_finders_pending := n_finders_pending (task_data task') + 1\<rparr>\<rparr>)))"

text \<open>
  The result pairs the finders whose \<^verbatim>\<open>resolve_async\<close> was called with the task
  as the function leaves it. The check of the cancellable's type is not modelled.
\<close>

definition ostree_repo_finder_resolve_all_async ::
  "results_sort \<Rightarrow> OstreeRepoFinder list option \<Rightarrow> string list option \<Rightarrow>
   OstreeRepoFinder list \<times> (resolve_all_error + ResolveAllTask)" where
  "ostree_repo_finder_resolve_all_async ptr_sort finders refs =
     (case finders of
        None \<Rightarrow> ([], Inl (ReturnIfFail ''finders != NULL && finders[0] != NULL''))
      | Some [] \<Rightarrow> ([], Inl (ReturnIfFail ''finders != NULL && finders[0] != NULL''))
      | Some fs \<Rightarrow>
          if \<not> is_valid_ref_array refs
          then ([], Inl (ReturnIfFail ''is_valid_ref_array (refs)''))
          else
            (case resolve_all_start ptr_sort fs
                    ([], Inr \<lparr>task_data = \<lparr>n_finders_pending = 1, results = Some []\<rparr>,
                              task_returned = []\<rparr>) of
               (started, Inl e) \<Rightarrow> (started, Inl e)
             | (started, Inr task) \<Rightarrow> (started, resolve_all_finished_one ptr_sort task)))"

text \<open>
  The main loop then runs \<^verbatim>\<open>resolve_all_cb\<close> once for each operation that
  completes after set-up, in the order of completion.
\<close>

fun resolve_all_callbacks ::
  "results_sort \<Rightarrow> ResolveAllTask \<Rightarrow> finder_outcome list \<Rightarrow> resolve_all_error + ResolveAllTask" where
  "resolve_all_callbacks ptr_sort task [] = Inr task"
| "resolve_all_callbacks ptr_sort task (outcome # outcomes) =
     (case resolve_all_cb ptr_sort task outcome of
        Inl e \<Rightarrow> Inl e
      | Inr task' \<Rightarrow> resolve_all_callbacks ptr_sort task' outcomes)"

definition resolve_all_run ::
  "results_sort \<Rightarrow> OstreeRepoFinder list option \<Rightarrow> string list option \<Rightarrow>
   finder_outcome list \<Rightarrow> resolve_all_error + ResolveAllTask" where
  "resolve_all_run ptr_sort finders refs outcomes =
     (case snd (ostree_repo_finder_resolve_all_async ptr_sort finders refs) of
        Inl e \<Rightarrow> Inl e
      | Inr task \<Rightarrow> resolve_all_callbacks ptr_sort task outcomes)"



text \<open>What one completed operation adds to the accumulator.\<close>

definition finder_contribution :: "GError + 'a list \<Rightarrow> 'a list" where
  "finder_contribution outcome = (case outcome of Inl _ \<Rightarrow> [] | Inr rs \<Rightarrow> rs)"

section \<open>Grouping refs by repository (both finders)\<close>

text \<open>
  Both finders collect the refs they support in a hash table from a key (a repository
  URI, or a remote name) to a pointer array of refs. The table is an association list
  in the order of first insertion; \<^verbatim>\<open>GHashTable\<close> iterates in an order of its own,
  which no statement below depends on.

  \<open>supported_refs_add\<close> is the common tail of both loop bodies: look the key up,
  insert an empty array under it when there is none, and append the ref to the array.
\<close>

type_synonym refs_table = "(string \<times> string list) list"

definition supported_refs_add :: "refs_table \<Rightarrow> string \<Rightarrow> string \<Rightarrow> refs_table" where
  "supported_refs_add tbl key ref =
     (case map_of tbl key of
        None \<Rightarrow> tbl @ [(key, [ref])]
      | Some supported_refs \<Rightarrow>
          map (\<lambda>(k, rs). if k = key then (k, rs @ [ref]) else (k, rs)) tbl)"

section \<open>The mount finder (ostree-repo-finder-mount.c)\<close>

datatype file_type = S_IFDIR | S_IFREG | S_IFLNK | S_IFOTHER

record struct_stat =
  st_mode_fmt :: file_type
  st_dev :: nat

text \<open>
  A \<^verbatim>\<open>GVolume\<close> as the finder sees it: its name, its drive (\<open>None\<close> for
  \<^verbatim>\<open>NULL\<close>, otherwise whether the drive is removable) and the root path of its mount
  (\<open>None\<close> when it has no mount).
\<close>

record GVolume =
  volume_name :: string
  volume_drive_removable :: "bool option"
  volume_mount_root_path :: "string option"

text \<open>
  The file system as the system calls report it. \<open>fs_opendirat_root p\<close>: the mount
  root \<open>p\<close> can be opened; \<open>fs_opendirat_repos p\<close>: \<^verbatim>\<open>.ostree/repos\<close> below it
  can be opened; \<open>fs_fstat_root p\<close>: the result of \<^verbatim>\<open>fstat\<close> on the mount root;
  \<open>fs_fstatat_repos p r\<close>: the result of \<^verbatim>\<open>fstatat\<close> for the name \<open>r\<close> in the
  repos directory, following symbolic links; \<open>fs_realpath\<close>: libc's
  \<^verbatim>\<open>realpath\<close>, \<open>None\<close> for \<^verbatim>\<open>NULL\<close>. A failing call is \<open>None\<close> (or
  \<open>False\<close>).
\<close>

record FileSystem =
  fs_opendirat_root :: "string \<Rightarrow> bool"
  fs_opendirat_repos :: "string \<Rightarrow> bool"
  fs_fstat_root :: "string \<Rightarrow> struct_stat option"
  fs_fstatat_repos :: "string \<Rightarrow> string \<Rightarrow> struct_stat option"
  fs_realpath :: "string \<Rightarrow> string option"

text \<open>
  \<^verbatim>\<open>g_build_filename (mount_root_path, ".ostree", "repos", refs[i], NULL)\<close>. The
  model joins the elements with one separator each and does not remove separators
  doubled at a joint, which names the same file.
\<close>

definition repo_dir_path_of :: "string \<Rightarrow> string \<Rightarrow> string" where
  "repo_dir_path_of mount_root_path ref = mount_root_path @ ''/.ostree/repos/'' @ ref"

text \<open>
  The checks on a volume before its refs are looked at; every failing check is a
  \<^verbatim>\<open>continue\<close> of the loop over the volumes. The removable check is compiled in
  from GLib 2.50 on. The result is the mount root's path and its \<^verbatim>\<open>stat\<close> buffer.
\<close>

definition mount_volume_open :: "FileSystem \<Rightarrow> GVolume \<Rightarrow> (string \<times> struct_stat) option" where
  "mount_volume_open fs volume =
     (case volume_drive_removable volume of
        None \<Rightarrow> None
      | Some removable \<Rightarrow>
          (case volume_mount_root_path volume of
             None \<Rightarrow> None
           | Some mount_root_path \<Rightarrow>
               if \<not> removable then None
               else if \<not> fs_opendirat_root fs mount_root_path then None
               else if \<not> fs_opendirat_repos fs mount_root_path then None
               else (case fs_fstat_root fs mount_root_path of
                       None \<Rightarrow> None
                     | Some mount_root_stbuf \<Rightarrow> Some (mount_root_path, mount_root_stbuf))))"

text \<open>
  The body of the loop over the refs up to the table lookup: \<open>None\<close> when the ref
  is skipped, otherwise the resolved repository URI. \<^verbatim>\<open>g_strconcat\<close> stops at its
  first \<^verbatim>\<open>NULL\<close> argument, so a failed \<^verbatim>\<open>realpath\<close> leaves the bare scheme.
\<close>

definition mount_resolve_ref :: "FileSystem \<Rightarrow> string \<Rightarrow> struct_stat \<Rightarrow> string \<Rightarrow> string option" where
  "mount_resolve_ref fs mount_root_path mount_root_stbuf ref =
     (case fs_fstatat_repos fs mount_root_path ref of
        None \<Rightarrow> None
      | Some stbuf \<Rightarrow>
          if st_mode_fmt stbuf \<noteq> S_IFDIR then None
          else if st_dev stbuf \<noteq> st_dev mount_root_stbuf then None
          else Some (''file://'' @
                     (case fs_realpath fs (repo_dir_path_of mount_root_path ref) of
                        None \<Rightarrow> []
                      | Some canonical_repo_dir_path \<Rightarrow> canonical_repo_dir_path)))"

fun mount_refs_loop ::
  "FileSystem \<Rightarrow> string \<Rightarrow> struct_stat \<Rightarrow> string list \<Rightarrow> refs_table \<Rightarrow> refs_table" where
  "mount_refs_loop fs mount_root_path mount_root_stbuf [] repo_uri_to_refs = repo_uri_to_refs"
| "mount_refs_loop fs mount_root_path mount_root_stbuf (ref # refs) repo_uri_to_refs =
     (case mount_resolve_ref fs mount_root_path mount_root_stbuf ref of
        None \<Rightarrow> mount_refs_loop fs mount_root_path mount_root_stbuf refs repo_uri_to_refs
      | Some resolved_repo_uri \<Rightarrow>
          mount_refs_loop fs mount_root_path mount_root_stbuf refs
            (supported_refs_add repo_uri_to_refs resolved_repo_uri ref))"

definition ostree_repo_finder_mount_priority :: gint where
  "ostree_repo_finder_mount_priority = 50"

text \<open>The result built for one entry of the table.\<close>

definition mount_result :: "string \<times> string list \<Rightarrow> string list OstreeRepoFinderResult" where
  "mount_result entry =
     (case entry of
        (repo_uri, supported_refs) \<Rightarrow>
          \<lparr>remote = \<lparr>remote_name = Some repo_uri,
                     remote_group = Some (''remote \"'' @ repo_uri @ ''\"''),
                     remote_options = [(''url'', repo_uri), (''gpg-verify'', ''true''),
                                       (''gpg-verify-summary'', ''true'')]\<rparr>,
           priority = ostree_repo_finder_mount_priority,
           ref_to_checksum = supported_refs,
           summary_last_modified = 0\<rparr>)"

text \<open>One iteration of the loop over the volumes: the results it appends.\<close>

definition mount_volume ::
  "FileSystem \<Rightarrow> string list \<Rightarrow> GVolume \<Rightarrow> string list OstreeRepoFinderResult list" where
  "mount_volume fs refs volume =
     (case mount_volume_open fs volume of
        None \<Rightarrow> []
      | Some (mount_root_path, mount_root_stbuf) \<Rightarrow>
          map mount_result (mount_refs_loop fs mount_root_path mount_root_stbuf refs []))"

text \<open>
  The array the task returns; the operation always returns a pointer, never an error.
  The volumes are the list the volume monitor reports.
\<close>

definition ostree_repo_finder_mount_resolve_async ::
  "FileSystem \<Rightarrow> GVolume list \<Rightarrow> string list \<Rightarrow> string list OstreeRepoFinderResult list" where
  "ostree_repo_finder_mount_resolve_async fs volumes refs =
     concat (map (mount_volume fs refs) volumes)"

section \<open>The config finder (ostree-repo-finder-config.c)\<close>

text \<open>
  The \<^verbatim>\<open>OstreeRepo\<close> as the finder uses it: the configured remote names
  (\<^verbatim>\<open>ostree_repo_remote_list\<close>), the refs a remote lists with their checksums
  (\<^verbatim>\<open>ostree_repo_remote_list_refs\<close>, \<open>None\<close> when it fails), and the remote's
  inherited configuration (\<^verbatim>\<open>_ostree_repo_get_remote_inherited\<close>, \<open>None\<close> for
  \<^verbatim>\<open>NULL\<close>).
\<close>

record OstreeRepo =
  repo_remote_list :: "string list"
  repo_remote_list_refs :: "string \<Rightarrow> (string \<times> string) list option"
  repo_get_remote_inherited :: "string \<Rightarrow> OstreeRemote option"

definition g_hash_table_contains :: "(string \<times> 'v) list \<Rightarrow> string \<Rightarrow> bool" where
  "g_hash_table_contains tbl key = (map_of tbl key \<noteq> None)"

fun config_refs_loop ::
  "string \<Rightarrow> (string \<times> string) list \<Rightarrow> string list \<Rightarrow> refs_table \<Rightarrow> refs_table" where
  "config_refs_loop remote_name' remote_refs [] repo_name_to_refs = repo_name_to_refs"
| "config_refs_loop remote_name' remote_refs (ref # refs) repo_name_to_refs =
     (if g_hash_table_contains remote_refs ref
      then config_refs_loop remote_name' remote_refs refs
             (supported_refs_add repo_name_to_refs remote_name' ref)
      else config_refs_loop remote_name' remote_refs refs repo_name_to_refs)"

fun config_remotes_loop ::
  "OstreeRepo \<Rightarrow> string list \<Rightarrow> string list \<Rightarrow> refs_table \<Rightarrow> refs_table" where
  "config_remotes_loop repo refs [] repo_name_to_refs = repo_name_to_refs"
| "config_remotes_loop repo refs (remote_name' # remotes) repo_name_to_refs =
     (case repo_remote_list_refs repo remote_name' of
        None \<Rightarrow> config_remotes_loop repo refs remotes repo_name_to_refs
      | Some remote_refs \<Rightarrow>
          config_remotes_loop repo refs remotes
            (config_refs_loop remote_name' remote_refs refs repo_name_to_refs))"

definition ostree_repo_finder_config_priority :: gint where
  "ostree_repo_finder_config_priority = 100"

text \<open>The aggregation loop over the table; a remote without configuration is skipped.\<close>

fun config_aggregate ::
  "OstreeRepo \<Rightarrow> refs_table \<Rightarrow> string list OstreeRepoFinderResult list" where
  "config_aggregate repo [] = []"
| "config_aggregate repo ((remote_name', supported_refs) # entries) =
     (case repo_get_remote_inherited repo remote_name' of
        None \<Rightarrow> config_aggregate repo entries
      | Some remote' \<Rightarrow>
          \<lparr>remote = remote', priority = ostree_repo_finder_config_priority,
           ref_to_checksum = supported_refs, summary_last_modified = 0\<rparr>
          # config_aggregate repo entries)"

definition ostree_repo_finder_config_resolve_async ::
  "OstreeRepo \<Rightarrow> string list \<Rightarrow> string list OstreeRepoFinderResult list" where
  "ostree_repo_finder_config_resolve_async repo refs =
     config_aggregate repo (config_remotes_loop repo refs (repo_remote_list repo) [])"

section \<open>Notions used in the statements\<close>

text \<open>
  The specification's wording of the ref validator: a name is valid when it is
  non-empty and every character is a printable ASCII character, that is, lies between
  the space and the tilde.
\<close>

definition spec_ascii_printable :: "char \<Rightarrow> bool" where
  "spec_ascii_printable c = (0x20 \<le> (of_char c :: nat) \<and> (of_char c :: nat) \<le> 0x7E)"

definition spec_is_valid_ref :: "string \<Rightarrow> bool" where
  "spec_is_valid_ref name = (name \<noteq> [] \<and> list_all spec_ascii_printable name)"

text \<open>
  The specification's wording of the ordering, as a sign: ascending by priority; then,
  when both timestamps are non-zero and differ, ascending by timestamp; then ascending
  by the number of refs; then ascending by remote name in the lexicographic order of
  the bytes, a missing name first.
\<close>

definition spec_char_less :: "(char \<times> char) set" where
  "spec_char_less = {(c, d). (of_char c :: nat) < of_char d}"

fun spec_name_precedes :: "string option \<Rightarrow> string option \<Rightarrow> bool" where
  "spec_name_precedes None None = False"
| "spec_name_precedes None (Some t) = True"
| "spec_name_precedes (Some s) None = False"
| "spec_name_precedes (Some s) (Some t) = ((s, t) \<in> lexord spec_char_less)"

definition spec_n_refs :: "GHashTable OstreeRepoFinderResult \<Rightarrow> nat" where
  "spec_n_refs a = card (fst ` set (ref_to_checksum a))"

definition spec_compare ::
  "GHashTable OstreeRepoFinderResult \<Rightarrow> GHashTable OstreeRepoFinderResult \<Rightarrow> int" where
  "spec_compare a b =
     (if sint (priority a) < sint (priority b) then - 1
      else if sint (priority b) < sint (priority a) then 1
      else if summary_last_modified a \<noteq> 0 \<and> summary_last_modified b \<noteq> 0 \<and>
              summary_last_modified a < summary_last_modified b then - 1
      else if summary_last_modified a \<noteq> 0 \<and> summary_last_modified b \<noteq> 0 \<and>
              summary_last_modified b < summary_last_modified a then 1
      else if spec_n_refs a < spec_n_refs b then - 1
      else if spec_n_refs b < spec_n_refs a then 1
      else if spec_name_precedes (remote_name (remote a)) (remote_name (remote b)) then - 1
      else if spec_name_precedes (remote_name (remote b)) (remote_name (remote a)) then 1
      else 0)"


text \<open>What a table holds under a key after more refs have been appended under it.\<close>

definition table_extend :: "string list option \<Rightarrow> string list \<Rightarrow> string list option" where
  "table_extend old new =
     (if new = [] then old else Some ((case old of None \<Rightarrow> [] | Some rs \<Rightarrow> rs) @ new))"

text \<open>The refs of a request that a configured remote lists, in the order of the request.\<close>

definition config_listed_refs :: "OstreeRepo \<Rightarrow> string list \<Rightarrow> string \<Rightarrow> string list" where
  "config_listed_refs repo refs n =
     (case repo_remote_list_refs repo n of
        None \<Rightarrow> []
      | Some remote_refs \<Rightarrow> filter (g_hash_table_contains remote_refs) refs)"

text \<open>
  A result of a finder read as a result of ostree-repo-finder.c: the same remote,
  priority and timestamp, with a hash table in the third field.
\<close>

definition with_ref_to_checksum ::
  "'r OstreeRepoFinderResult \<Rightarrow> GHashTable \<Rightarrow> GHashTable OstreeRepoFinderResult" where
  "with_ref_to_checksum res tbl =
     \<lparr>remote = remote res, priority = priority res, ref_to_checksum = tbl,
      summary_last_modified = summary_last_modified res\<rparr>"

section \<open>Concrete inputs\<close>

text \<open>A result with the given remote name, priority, refs and timestamp.\<close>

definition example_result ::
  "string \<Rightarrow> gint \<Rightarrow> GHashTable \<Rightarrow> guint64 \<Rightarrow> GHashTable OstreeRepoFinderResult" where
  "example_result n prio tbl stamp =
     \<lparr>remote = \<lparr>remote_name = Some n, remote_group = Some (''remote \"'' @ n @ ''\"''),
                remote_options = [(''url'', n)]\<rparr>,
      priority = prio, ref_to_checksum = tbl, summary_last_modified = stamp\<rparr>"

text \<open>A result as the mount finder and one as the config finder would report it.\<close>

definition example_mount_found :: "GHashTable OstreeRepoFinderResult" where
  "example_mount_found = example_result ''file:///media/usb/repo'' 50 [(''a'', None)] 0"

definition example_config_found :: "GHashTable OstreeRepoFinderResult" where
  "example_config_found = example_result ''origin'' 100 [(''a'', Some ''c0ffee'')] 0"

text \<open>
  A finder whose completion comes later from the main loop, and a finder whose
  \<^verbatim>\<open>resolve_async\<close> invokes the callback before it returns.
\<close>

definition example_finder_later :: "string \<Rightarrow> OstreeRepoFinder" where
  "example_finder_later n = \<lparr>finder_type_name = n, completes_in_resolve_async = None\<rparr>"

definition example_finder_at_once :: "finder_outcome \<Rightarrow> OstreeRepoFinder" where
  "example_finder_at_once outcome =
     \<lparr>finder_type_name = ''ExampleFinder'', completes_in_resolve_async = Some outcome\<rparr>"


text \<open>
  A removable volume mounted at \<^verbatim>\<open>/media/usb\<close> on device 7. Below
  \<^verbatim>\<open>.ostree/repos\<close> the names \<^verbatim>\<open>a\<close> and \<^verbatim>\<open>b\<close> are symbolic links to the
  directory \<^verbatim>\<open>/media/usb/repo\<close> on the volume, and \<^verbatim>\<open>c\<close> is a symbolic link to a
  directory on device 9; no other name exists.
\<close>

definition example_volume :: GVolume where
  "example_volume =
     \<lparr>volume_name = ''USB'', volume_drive_removable = Some True,
      volume_mount_root_path = Some ''/media/usb''\<rparr>"

definition example_fs :: FileSystem where
  "example_fs =
     \<lparr>fs_opendirat_root = (\<lambda>p. p = ''/media/usb''),
      fs_opendirat_repos = (\<lambda>p. p = ''/media/usb''),
      fs_fstat_root =
        (\<lambda>p. if p = ''/media/usb'' then Some \<lparr>st_mode_fmt = S_IFDIR, st_dev = 7\<rparr> else None),
      fs_fstatat_repos =
        (\<lambda>p r. if p = ''/media/usb'' \<and> (r = ''a'' \<or> r = ''b'')
                  then Some \<lparr>st_mode_fmt = S_IFDIR, st_dev = 7\<rparr>
                else if p = ''/media/usb'' \<and> r = ''c''
                  then Some \<lparr>st_mode_fmt = S_IFDIR, st_dev = 9\<rparr>
                else None),
      fs_realpath =
        (\<lambda>p. if p = ''/media/usb/.ostree/repos/a'' \<or> p = ''/media/usb/.ostree/repos/b''
                then Some ''/media/usb/repo''
              else if p = ''/media/usb/.ostree/repos/c'' then Some ''/home/user/repo''
              else None)\<rparr>"

text \<open>
  A repository with one configured remote, which lists the ref \<^verbatim>\<open>a\<close>. The remote
  is named like the URI of the repository on the volume above.
\<close>

definition example_repo :: OstreeRepo where
  "example_repo =
     \<lparr>repo_remote_list = [''file:///media/usb/repo''],
      repo_remote_list_refs =
        (\<lambda>n. if n = ''file:///media/usb/repo'' then Some [(''a'', ''c0ffee'')] else None),
      repo_get_remote_inherited =
        (\<lambda>n. if n = ''file:///media/usb/repo''
              then Some \<lparr>remote_name = Some n, remote_group = Some (''remote \"'' @ n @ ''\"''),
                         remote_options = [(''url'', ''https://example.org/repo'')]\<rparr>
              else None)\<rparr>"

section \<open>Properties of the library functions\<close>

lemma of_char_lt_256: "(of_char c :: nat) < 256"
proof -
  have "(of_char c :: nat) mod 256 < 256" by simp
  thus ?thesis by (simp only: of_char_mod_256)
qed

lemma nat_bit7: "n < 256 \<Longrightarrow> (\<not> odd (n div 128)) = ((n::nat) < 128)"
proof (cases "n < 128")
  case True
  then show ?thesis by simp
next
  case False
  assume "n < 256"
  with False have "n div 128 = 1" by (intro div_nat_eqI) simp_all
  with False show ?thesis by simp
qed

lemma high_bit_clear_iff: "((of_char c :: nat) AND 0x80 = 0) = ((of_char c :: nat) < 128)"
proof -
  have e: "(0x80 :: nat) = 2 ^ 7" by simp
  have f: "(2 ^ 7 :: nat) = 128" by simp
  have "((of_char c :: nat) AND 2 ^ 7 = 0) = (\<not> bit (of_char c :: nat) 7)"
    by (rule and_exp_eq_0_iff_not_bit)
  also have "\<dots> = (\<not> odd ((of_char c :: nat) div 2 ^ 7))"
    by (simp only: bit_iff_odd)
  also have "\<dots> = ((of_char c :: nat) < 128)"
    unfolding f by (rule nat_bit7 [OF of_char_lt_256])
  finally show ?thesis unfolding e .
qed

lemma g_str_is_ascii_iff: "g_str_is_ascii s = list_all (\<lambda>c. (of_char c :: nat) < 128) s"
  by (induction s) (simp_all add: high_bit_clear_iff del: of_char_Char)



section \<open>Properties of the comparator\<close>

text \<open>
  While the differences the comparator computes fit a \<^verbatim>\<open>gint\<close>, its sign is the
  one the key cascade asks for, and it changes sign when the arguments are swapped.
\<close>

lemma sint_word32_of_int:
  "- (2 ^ 31) \<le> k \<Longrightarrow> k < 2 ^ 31 \<Longrightarrow> sint (word_of_int k :: 32 word) = k"
  by (simp add: sint_sbintrunc' signed_take_bit_int_eq_self)

lemma gint_sub_in_range:
  fixes x y :: gint
  assumes "- (2 ^ 31) \<le> sint x - sint y" "sint x - sint y < 2 ^ 31"
  shows "sint (x - y) = sint x - sint y"
proof -
  have "x - y = word_of_int (sint x - sint y)"
    by simp
  then show ?thesis using assms by (simp only: sint_word32_of_int)
qed

lemma word32_of_int_mod_2p64:
  "(word_of_int (k mod 2 ^ 64) :: 32 word) = word_of_int k"
proof -
  have d: "(2 ^ 32 :: int) dvd 2 ^ 64" by (rule le_imp_power_dvd) simp
  have "(k mod 2 ^ 64) mod 2 ^ 32 = k mod 2 ^ 32" by (rule mod_mod_cancel [OF d])
  then have "take_bit LENGTH(32) (k mod 2 ^ 64) = take_bit LENGTH(32) k"
    by (simp only: take_bit_eq_mod len_num1 len_bit0 mult_numeral_1_right) simp
  then show ?thesis by (simp only: word_of_int_eq_iff)
qed

lemma guint64_diff_truncated:
  fixes x y :: guint64
  shows "(ucast (x - y) :: gint) = word_of_int (uint x - uint y)"
proof -
  have "(ucast (x - y) :: gint) = word_of_int (uint (x - y))" by (rule ucast_eq)
  also have "uint (x - y) = (uint x - uint y) mod 2 ^ 64"
    by (simp add: uint_word_ariths)
  also have "(word_of_int ((uint x - uint y) mod 2 ^ 64) :: gint) = word_of_int (uint x - uint y)"
    by (rule word32_of_int_mod_2p64)
  finally show ?thesis .
qed

lemma guint64_sub_in_range:
  fixes x y :: guint64
  assumes "- (2 ^ 31) \<le> uint x - uint y" "uint x - uint y < 2 ^ 31"
  shows "sint (ucast (x - y) :: gint) = uint x - uint y"
  using assms by (simp only: guint64_diff_truncated sint_word32_of_int)

lemma guint_sub_in_range:
  assumes "na < 2 ^ 31" "nb < 2 ^ 31"
  shows "sint ((word_of_nat na :: guint) - word_of_nat nb) = int na - int nb"
proof -
  have "(word_of_nat na :: guint) - word_of_nat nb = word_of_int (int na - int nb)"
    by simp
  moreover have "- (2 ^ 31) \<le> int na - int nb" "int na - int nb < 2 ^ 31"
    using assms by simp_all
  ultimately show ?thesis by (simp only: sint_word32_of_int)
qed

lemma strcmp_range: "strcmp s t = - 1 \<or> strcmp s t = 0 \<or> strcmp s t = 1"
  by (induction s t rule: strcmp.induct) auto


lemma strcmp_neg_iff: "(strcmp s t < 0) = ((s, t) \<in> lexord spec_char_less)"
  by (induction s t rule: strcmp.induct) (auto simp: spec_char_less_def)

lemma strcmp_pos_iff: "(0 < strcmp s t) = ((t, s) \<in> lexord spec_char_less)"
proof (induction s t rule: strcmp.induct)
  case (4 x xs y ys)
  have "(of_char x :: nat) < of_char y \<or> (of_char y :: nat) < of_char x" if "x \<noteq> y"
  proof -
    from that have "(of_char x :: nat) \<noteq> of_char y" by simp
    then show ?thesis by arith
  qed
  then show ?case using 4 by (auto simp: spec_char_less_def)
qed (auto simp: spec_char_less_def)

lemma sint_strcmp: "sint (word_of_int (strcmp s t) :: gint) = strcmp s t"
  using strcmp_range [of s t] by auto

lemma sgn_g_strcmp0:
  "sgn (sint (g_strcmp0 n1 n2)) =
     (if spec_name_precedes n1 n2 then - 1 else if spec_name_precedes n2 n1 then 1 else 0)"
proof (cases n1; cases n2)
  fix s t
  assume n: "n1 = Some s" "n2 = Some t"
  show ?thesis
    using strcmp_range [of s t] strcmp_neg_iff [of s t] strcmp_pos_iff [of s t]
    by (auto simp: n sint_strcmp)
qed simp_all

lemma g_hash_table_size_spec:
  "g_hash_table_size (ref_to_checksum a) = word_of_nat (spec_n_refs a)"
  by (simp add: g_hash_table_size_def spec_n_refs_def length_remdups_card_conv)

lemma sgn_diff_int: "(x::int) \<noteq> y \<Longrightarrow> sgn (x - y) = (if x < y then - 1 else 1)"
  by (simp add: sgn_if)

lemma guint_of_nat_eq_iff:
  assumes "na < 2 ^ 31" "nb < 2 ^ 31"
  shows "((word_of_nat na :: guint) = word_of_nat nb) = (na = nb)"
proof
  assume "(word_of_nat na :: guint) = word_of_nat nb"
  then have "sint ((word_of_nat na :: guint) - word_of_nat nb) = 0" by simp
  then show "na = nb" using guint_sub_in_range [OF assms] by simp
qed simp

lemma compare_cascade_in_range:
  assumes p: "- (2 ^ 31) \<le> sint (priority a) - sint (priority b)"
             "sint (priority a) - sint (priority b) < 2 ^ 31"
    and t: "- (2 ^ 31) \<le> uint (summary_last_modified a) - uint (summary_last_modified b)"
           "uint (summary_last_modified a) - uint (summary_last_modified b) < 2 ^ 31"
    and n: "spec_n_refs a < 2 ^ 31" "spec_n_refs b < 2 ^ 31"
  shows "sgn (sint (ostree_repo_finder_result_compare (Some a) (Some b))) = spec_compare a b"
proof (cases "priority a = priority b")
  case False
  then have ne: "sint (priority a) \<noteq> sint (priority b)"
    by (simp add: word_eq_iff_signed [where ?'a = int])
  have "sint (priority a - priority b) = sint (priority a) - sint (priority b)"
    by (rule gint_sub_in_range [OF p])
  with False ne show ?thesis
    by (simp add: ostree_repo_finder_result_compare_def spec_compare_def sgn_diff_int)
next
  case peq: True
  show ?thesis
  proof (cases "summary_last_modified a \<noteq> 0 \<and> summary_last_modified b \<noteq> 0 \<and>
                summary_last_modified a \<noteq> summary_last_modified b")
    case True
    then have ne: "uint (summary_last_modified a) \<noteq> uint (summary_last_modified b)"
      by (simp add: word_eq_iff_unsigned [where ?'a = int])
    have "sint (ucast (summary_last_modified a - summary_last_modified b) :: gint) =
            uint (summary_last_modified a) - uint (summary_last_modified b)"
      by (rule guint64_sub_in_range [OF t])
    with peq True ne show ?thesis
      by (simp add: ostree_repo_finder_result_compare_def spec_compare_def sgn_diff_int
            word_less_alt)
  next
    case tf: False
    then have no_t: "\<not> (summary_last_modified a \<noteq> 0 \<and> summary_last_modified b \<noteq> 0 \<and>
              summary_last_modified a < summary_last_modified b)"
        "\<not> (summary_last_modified a \<noteq> 0 \<and> summary_last_modified b \<noteq> 0 \<and>
              summary_last_modified b < summary_last_modified a)"
      by auto
    show ?thesis
    proof (cases "spec_n_refs a = spec_n_refs b")
      case True
      with peq tf show ?thesis
        unfolding spec_compare_def
        by (auto simp add: ostree_repo_finder_result_compare_def no_t
              g_hash_table_size_spec sgn_g_strcmp0 Let_def)
    next
      case False
      then have wne: "(word_of_nat (spec_n_refs a) :: guint) \<noteq> word_of_nat (spec_n_refs b)"
        by (simp add: guint_of_nat_eq_iff [OF n])
      have "sint ((word_of_nat (spec_n_refs a) :: guint) - word_of_nat (spec_n_refs b)) =
              int (spec_n_refs a) - int (spec_n_refs b)"
        by (rule guint_sub_in_range [OF n])
      with peq tf False wne show ?thesis
        unfolding spec_compare_def
        by (auto simp add: ostree_repo_finder_result_compare_def no_t
              g_hash_table_size_spec Let_def sgn_diff_int)
    qed
  qed
qed


lemma spec_name_precedes_asym:
  "spec_name_precedes n1 n2 \<Longrightarrow> \<not> spec_name_precedes n2 n1"
proof (cases n1; cases n2)
  fix s t
  assume n: "n1 = Some s" "n2 = Some t" and h: "spec_name_precedes n1 n2"
  from h n have "strcmp s t < 0" by (simp add: strcmp_neg_iff)
  then have "\<not> 0 < strcmp s t" by simp
  then show ?thesis by (simp add: n strcmp_pos_iff)
qed simp_all

lemma spec_compare_swap: "spec_compare b a = - spec_compare a b"
  using spec_name_precedes_asym [of "remote_name (remote a)" "remote_name (remote b)"]
  by (auto simp: spec_compare_def)

lemma swap_bounds:
  fixes x y c :: int
  assumes "- c < x - y" "x - y < c"
  shows "- c \<le> y - x" "y - x < c"
  using assms by linarith+

lemma compare_swap_in_range:
  assumes p: "- (2 ^ 31) < sint (priority a) - sint (priority b)"
             "sint (priority a) - sint (priority b) < 2 ^ 31"
    and t: "- (2 ^ 31) < uint (summary_last_modified a) - uint (summary_last_modified b)"
           "uint (summary_last_modified a) - uint (summary_last_modified b) < 2 ^ 31"
    and n: "spec_n_refs a < 2 ^ 31" "spec_n_refs b < 2 ^ 31"
  shows "sgn (sint (ostree_repo_finder_result_compare (Some b) (Some a))) =
           - sgn (sint (ostree_repo_finder_result_compare (Some a) (Some b)))"
proof -
  have ab: "sgn (sint (ostree_repo_finder_result_compare (Some a) (Some b))) = spec_compare a b"
    by (rule compare_cascade_in_range [OF less_imp_le [OF p(1)] p(2) less_imp_le [OF t(1)] t(2) n])
  have p': "- (2 ^ 31) \<le> sint (priority b) - sint (priority a)"
           "sint (priority b) - sint (priority a) < 2 ^ 31"
    by (rule swap_bounds [OF p])+
  have t': "- (2 ^ 31) \<le> uint (summary_last_modified b) - uint (summary_last_modified a)"
           "uint (summary_last_modified b) - uint (summary_last_modified a) < 2 ^ 31"
    by (rule swap_bounds [OF t])+
  have ba: "sgn (sint (ostree_repo_finder_result_compare (Some b) (Some a))) = spec_compare b a"
    by (rule compare_cascade_in_range [OF p' t' n(2) n(1)])
  show ?thesis unfolding ab ba by (rule spec_compare_swap)
qed

section \<open>Properties of the sort and of the comparator on results in range\<close>










lemma spec_name_precedes_irrefl: "\<not> spec_name_precedes a a"
  using spec_name_precedes_asym [of a a] by blast









section \<open>Properties of the validators\<close>

lemma is_valid_ref_array_loop_iff:
  "is_valid_ref_array_loop rs = list_all (\<lambda>r. is_valid_ref_name (Some r)) rs"
  by (induction rs) simp_all

lemma is_valid_ref_array_iff:
  "is_valid_ref_array refs =
     (case refs of None \<Rightarrow> False
      | Some rs \<Rightarrow> rs \<noteq> [] \<and> list_all (\<lambda>r. is_valid_ref_name (Some r)) rs)"
  by (simp add: is_valid_ref_array_def is_valid_ref_array_loop_iff split: option.split list.split)

lemma g_str_is_ascii_high_byte:
  "(\<exists>c\<in>set r. 128 \<le> (of_char c :: nat)) \<Longrightarrow> \<not> g_str_is_ascii r"
  by (auto simp: g_str_is_ascii_iff list_all_iff not_less)

section \<open>Properties of the aggregation\<close>

lemma array_concatenate_steal_append:
  "array_concatenate_steal (Some xs) ys = Some (xs @ ys)"
  unfolding array_concatenate_steal_def
  by (induction ys arbitrary: xs) simp_all

lemma array_concatenate_steal_null: "array_concatenate_steal None ys = None"
  unfolding array_concatenate_steal_def
  by (induction ys) simp_all

lemma gsize_unat_of_nat: "n < 2 ^ 64 \<Longrightarrow> unat (word_of_nat n :: gsize) = n"
  by (rule of_nat_inverse [OF refl]) simp

lemma gsize_of_nat_eq_0_iff:
  "n < 2 ^ 64 \<Longrightarrow> ((word_of_nat n :: gsize) = 0) = (n = 0)"
proof -
  assume a: "n < 2 ^ 64"
  have "((word_of_nat n :: gsize) = 0) = (unat (word_of_nat n :: gsize) = 0)"
    by (simp only: unat_0_iff)
  also have "\<dots> = (n = 0)" by (simp only: gsize_unat_of_nat [OF a])
  finally show ?thesis .
qed

lemma resolve_all_start_counts:
  assumes "\<forall>f\<in>set fs. completes_in_resolve_async f = None"
  shows "resolve_all_start ptr_sort fs (started, Inr task) =
     (started @ fs,
      Inr (task\<lparr>task_data := (task_data task)\<lparr>n_finders_pending :=
              n_finders_pending (task_data task) + word_of_nat (length fs)\<rparr>\<rparr>))"
  using assms
  by (induction fs arbitrary: started task) (simp_all add: algebra_simps)

lemma resolve_all_cb_pending:
  assumes "Suc m < 2 ^ 64" "m \<noteq> 0"
  shows "resolve_all_cb ptr_sort
           \<lparr>task_data = \<lparr>n_finders_pending = word_of_nat (Suc m), results = Some acc\<rparr>,
            task_returned = ret\<rparr> c =
         Inr \<lparr>task_data = \<lparr>n_finders_pending = word_of_nat m,
                            results = Some (acc @ finder_contribution c)\<rparr>,
              task_returned = ret\<rparr>"
proof -
  from assms have "m < 2 ^ 64" by simp
  with assms(2) have nz: "(word_of_nat m :: gsize) \<noteq> 0"
    by (simp add: gsize_of_nat_eq_0_iff)
  show ?thesis
    using nz
    by (cases c)
       (simp_all add: resolve_all_cb_def resolve_all_finished_one_def Let_def
          finder_contribution_def array_concatenate_steal_append)
qed

lemma resolve_all_cb_last:
  "resolve_all_cb ptr_sort
     \<lparr>task_data = \<lparr>n_finders_pending = 1, results = Some acc\<rparr>, task_returned = ret\<rparr> c =
   Inr \<lparr>task_data = \<lparr>n_finders_pending = 0, results = None\<rparr>,
        task_returned = ret @ [ptr_sort sort_results_cb (acc @ finder_contribution c)]\<rparr>"
  by (cases c)
     (simp_all add: resolve_all_cb_def resolve_all_finished_one_def Let_def
        finder_contribution_def array_concatenate_steal_append)

lemma resolve_all_callbacks_pending:
  assumes "length cs + m < 2 ^ 64" "m \<noteq> 0"
  shows "resolve_all_callbacks ptr_sort
           \<lparr>task_data = \<lparr>n_finders_pending = word_of_nat (length cs + m), results = Some acc\<rparr>,
            task_returned = ret\<rparr> cs =
         Inr \<lparr>task_data = \<lparr>n_finders_pending = word_of_nat m,
                            results = Some (acc @ concat (map finder_contribution cs))\<rparr>,
              task_returned = ret\<rparr>"
  using assms
proof (induction cs arbitrary: acc)
  case Nil
  then show ?case by simp
next
  case (Cons c cs)
  from Cons.prems have b: "Suc (length cs + m) < 2 ^ 64" and nz: "length cs + m \<noteq> 0"
    by simp_all
  from Cons.prems have b': "length cs + m < 2 ^ 64" by simp
  have "resolve_all_callbacks ptr_sort
           \<lparr>task_data = \<lparr>n_finders_pending = word_of_nat (Suc (length cs + m)), results = Some acc\<rparr>,
            task_returned = ret\<rparr> (c # cs) =
        resolve_all_callbacks ptr_sort
           \<lparr>task_data = \<lparr>n_finders_pending = word_of_nat (length cs + m),
                          results = Some (acc @ finder_contribution c)\<rparr>,
            task_returned = ret\<rparr> cs"
    by (simp only: resolve_all_callbacks.simps resolve_all_cb_pending [OF b nz] sum.case)
  also have "\<dots> = Inr \<lparr>task_data = \<lparr>n_finders_pending = word_of_nat m,
                            results = Some ((acc @ finder_contribution c) @ concat (map finder_contribution cs))\<rparr>,
              task_returned = ret\<rparr>"
    by (rule Cons.IH [OF b' Cons.prems(2)])
  finally show ?case by simp
qed

lemma resolve_all_callbacks_split:
  "resolve_all_callbacks ptr_sort task (xs @ ys) =
     (case resolve_all_callbacks ptr_sort task xs of
        Inl e \<Rightarrow> Inl e
      | Inr task' \<Rightarrow> resolve_all_callbacks ptr_sort task' ys)"
  by (induction xs arbitrary: task) (simp_all split: sum.split)

lemma resolve_all_callbacks_all:
  assumes "cs \<noteq> []" "length cs < 2 ^ 64"
  shows "resolve_all_callbacks ptr_sort
           \<lparr>task_data = \<lparr>n_finders_pending = word_of_nat (length cs), results = Some acc\<rparr>,
            task_returned = ret\<rparr> cs =
         Inr \<lparr>task_data = \<lparr>n_finders_pending = 0, results = None\<rparr>,
              task_returned =
                ret @ [ptr_sort sort_results_cb (acc @ concat (map finder_contribution cs))]\<rparr>"
proof -
  from assms(1) obtain xs c where cs: "cs = xs @ [c]"
    by (metis append_butlast_last_id)
  from assms(2) cs have b: "length xs + 1 < 2 ^ 64" by simp
  have l: "length cs = length xs + 1" using cs by simp
  show ?thesis
    unfolding l
    unfolding cs resolve_all_callbacks_split
    using resolve_all_callbacks_pending [OF b, of ptr_sort acc ret]
    by (simp add: resolve_all_cb_last)
qed

lemma resolve_all_async_started:
  assumes "fs \<noteq> []" "length fs < 2 ^ 64" "is_valid_ref_array refs"
    and "\<forall>f\<in>set fs. completes_in_resolve_async f = None"
  shows "ostree_repo_finder_resolve_all_async ptr_sort (Some fs) refs =
           (fs, Inr \<lparr>task_data = \<lparr>n_finders_pending = word_of_nat (length fs), results = Some []\<rparr>,
                     task_returned = []\<rparr>)"
proof -
  from assms(1,2) have nz: "(word_of_nat (length fs) :: gsize) \<noteq> 0"
    by (simp add: gsize_of_nat_eq_0_iff)
  from assms(1) obtain f fs' where fs: "fs = f # fs'" by (cases fs) auto
  have "resolve_all_start ptr_sort fs
          ([], Inr \<lparr>task_data = \<lparr>n_finders_pending = 1, results = Some []\<rparr>,
                    task_returned = []\<rparr>) =
        (fs, Inr \<lparr>task_data = \<lparr>n_finders_pending = 1 + word_of_nat (length fs),
                                   results = Some []\<rparr>, task_returned = []\<rparr>)"
    by (simp add: resolve_all_start_counts [OF assms(4)])
  then show ?thesis
    using nz assms(3) unfolding fs
    by (simp add: ostree_repo_finder_resolve_all_async_def
          resolve_all_finished_one_def Let_def)
qed




text \<open>
  When every completion is delivered after set-up, the aggregation counts down from
  the number of finders and returns once, with the last completion.
\<close>

lemma resolve_all_state_machine_deferred:
  assumes "fs \<noteq> []" and "length fs < 2 ^ 64" and "is_valid_ref_array refs"
    and "\<forall>f\<in>set fs. completes_in_resolve_async f = None"
    and "length cs = length fs" and "k \<le> length fs"
  shows "fst (ostree_repo_finder_resolve_all_async ptr_sort (Some fs) refs) = fs \<and>
         (\<exists>task. resolve_all_run ptr_sort (Some fs) refs (take k cs) = Inr task \<and>
            unat (n_finders_pending (task_data task)) = length fs - k \<and>
            task_returned task =
              (if k = length fs
               then [ptr_sort sort_results_cb (concat (map finder_contribution cs))]
               else []))"
proof (cases "k = length fs")
  case True
  from assms(1,5) have ne: "cs \<noteq> []" by auto
  from assms(2,5) have b: "length cs < 2 ^ 64" by simp
  show ?thesis
    using resolve_all_callbacks_all [OF ne b, of ptr_sort "[]" "[]"] True
    by (simp add: resolve_all_run_def resolve_all_async_started [OF assms(1-4)] assms(5))
next
  case False
  with assms(6) have k: "k < length fs" by simp
  define m where "m = length fs - k"
  have lk: "length (take k cs) = k" using k assms(5) by simp
  have m: "m \<noteq> 0" "length (take k cs) + m < 2 ^ 64" "length (take k cs) + m = length fs"
    using k assms(2) lk by (simp_all add: m_def)
  have mb: "m < 2 ^ 64" using m(2) by simp
  show ?thesis
    using resolve_all_callbacks_pending [OF m(2) m(1), of ptr_sort "[]" "[]", unfolded m(3)] False
    by (simp add: resolve_all_run_def resolve_all_async_started [OF assms(1-4)]
          gsize_unat_of_nat [OF mb] m_def [symmetric])
qed

section \<open>Properties of the grouping in the finders\<close>

lemma map_of_supported_refs_add:
  "map_of (supported_refs_add tbl key ref) k =
     (if k = key
      then Some ((case map_of tbl key of None \<Rightarrow> [] | Some rs \<Rightarrow> rs) @ [ref])
      else map_of tbl k)"
proof (cases "map_of tbl key")
  case None
  then show ?thesis
    by (simp add: supported_refs_add_def map_add_def split: option.split)
next
  case (Some rs)
  have "map_of (map (\<lambda>(k', v). if k' = key then (k', v @ [ref]) else (k', v)) tbl) k =
          (if k = key then map_option (\<lambda>v. v @ [ref]) (map_of tbl k) else map_of tbl k)"
    by (induction tbl) auto
  with Some show ?thesis by (simp add: supported_refs_add_def)
qed

lemma keys_supported_refs_add:
  "map fst (supported_refs_add tbl key ref) =
     (if map_of tbl key = None then map fst tbl @ [key] else map fst tbl)"
proof -
  have "map fst (map (\<lambda>(k', v). if k' = key then (k', v @ [ref]) else (k', v)) tbl) = map fst tbl"
    by (induction tbl) auto
  then show ?thesis
    by (auto simp: supported_refs_add_def split: option.split)
qed

lemma distinct_supported_refs_add:
  "distinct (map fst tbl) \<Longrightarrow> distinct (map fst (supported_refs_add tbl key ref))"
  by (auto simp: keys_supported_refs_add map_of_eq_None_iff)

lemma table_extend_Nil: "table_extend old [] = old"
  by (simp add: table_extend_def)

lemma table_extend_append:
  "table_extend (table_extend old xs) ys = table_extend old (xs @ ys)"
  by (auto simp: table_extend_def split: option.split)

lemma distinct_mount_refs_loop:
  "distinct (map fst tbl) \<Longrightarrow> distinct (map fst (mount_refs_loop fs p st refs tbl))"
  by (induction refs arbitrary: tbl) (auto simp: distinct_supported_refs_add split: option.split)

lemma map_of_mount_refs_loop:
  "map_of (mount_refs_loop fs p st refs tbl) uri =
     table_extend (map_of tbl uri) (filter (\<lambda>r. mount_resolve_ref fs p st r = Some uri) refs)"
proof (induction refs arbitrary: tbl)
  case Nil
  then show ?case by (simp add: table_extend_Nil)
next
  case (Cons r refs)
  show ?case
  proof (cases "mount_resolve_ref fs p st r")
    case None
    then show ?thesis by (simp add: Cons.IH)
  next
    case (Some u)
    then show ?thesis
      by (simp add: Cons.IH map_of_supported_refs_add)
         (auto simp: table_extend_def split: option.split)
  qed
qed

lemma filter_key_distinct:
  assumes "distinct (map fst tbl)"
  shows "filter (\<lambda>e. fst e = k) tbl = (case map_of tbl k of None \<Rightarrow> [] | Some v \<Rightarrow> [(k, v)])"
  using assms
proof (induction tbl)
  case Nil
  then show ?case by simp
next
  case (Cons e tbl)
  obtain k' v' where e: "e = (k', v')" by (cases e)
  show ?case
  proof (cases "k' = k")
    case True
    with Cons.prems e have "map_of tbl k = None"
      by (simp add: map_of_eq_None_iff)
    with Cons True e show ?thesis by simp
  next
    case False
    with Cons e show ?thesis by simp
  qed
qed

lemma mount_result_name: "remote_name (remote (mount_result e)) = Some (fst e)"
  by (cases e) (simp add: mount_result_def)

lemma mount_result_refs: "ref_to_checksum (mount_result e) = snd e"
  by (cases e) (simp add: mount_result_def)

lemma mount_volume_results_for:
  assumes "mount_volume_open fs volume = Some (p, st)"
  shows "filter (\<lambda>res. remote_name (remote res) = Some uri) (mount_volume fs refs volume) =
           (case table_extend None (filter (\<lambda>r. mount_resolve_ref fs p st r = Some uri) refs) of
              None \<Rightarrow> []
            | Some rs \<Rightarrow> [mount_result (uri, rs)])"
proof -
  let ?tbl = "mount_refs_loop fs p st refs []"
  have d: "distinct (map fst ?tbl)" by (rule distinct_mount_refs_loop) simp
  have "filter (\<lambda>res. remote_name (remote res) = Some uri) (map mount_result ?tbl) =
          map mount_result (filter (\<lambda>e. fst e = uri) ?tbl)"
    by (simp add: filter_map comp_def mount_result_name)
  also have "\<dots> = (case map_of ?tbl uri of None \<Rightarrow> [] | Some v \<Rightarrow> [mount_result (uri, v)])"
    by (simp add: filter_key_distinct [OF d] split: option.split)
  finally show ?thesis
    using assms by (simp add: mount_volume_def map_of_mount_refs_loop)
qed




lemma count_list_filter:
  "count_list (filter P xs) x = (if P x then count_list xs x else 0)"
  by (induction xs) auto

lemma distinct_config_refs_loop:
  "distinct (map fst tbl) \<Longrightarrow> distinct (map fst (config_refs_loop n remote_refs refs tbl))"
  by (induction refs arbitrary: tbl) (auto simp: distinct_supported_refs_add)

lemma map_of_config_refs_loop_same:
  "map_of (config_refs_loop n remote_refs refs tbl) n =
     table_extend (map_of tbl n) (filter (g_hash_table_contains remote_refs) refs)"
proof (induction refs arbitrary: tbl)
  case Nil
  then show ?case by (simp add: table_extend_Nil)
next
  case (Cons r refs)
  show ?case
    by (simp add: Cons.IH map_of_supported_refs_add)
       (auto simp: table_extend_def split: option.split)
qed

lemma map_of_config_refs_loop_other:
  "k \<noteq> n \<Longrightarrow> map_of (config_refs_loop n remote_refs refs tbl) k = map_of tbl k"
  by (induction refs arbitrary: tbl) (simp_all add: map_of_supported_refs_add)

lemma map_of_config_refs_loop:
  "map_of (config_refs_loop n remote_refs refs tbl) k =
     (if k = n
      then table_extend (map_of tbl n) (filter (g_hash_table_contains remote_refs) refs)
      else map_of tbl k)"
  by (simp add: map_of_config_refs_loop_same map_of_config_refs_loop_other)

lemma distinct_config_remotes_loop:
  "distinct (map fst tbl) \<Longrightarrow> distinct (map fst (config_remotes_loop repo refs remotes tbl))"
  by (induction remotes arbitrary: tbl) (auto simp: distinct_config_refs_loop split: option.split)

lemma map_of_config_remotes_loop:
  "map_of (config_remotes_loop repo refs remotes tbl) k =
     table_extend (map_of tbl k)
       (concat (map (\<lambda>n. if n = k then config_listed_refs repo refs n else []) remotes))"
proof (induction remotes arbitrary: tbl)
  case Nil
  then show ?case by (simp add: table_extend_Nil)
next
  case (Cons n remotes)
  show ?case
  proof (cases "repo_remote_list_refs repo n")
    case None
    then show ?thesis by (auto simp: Cons.IH config_listed_refs_def)
  next
    case (Some remote_refs)
    then show ?thesis
      by (auto simp: Cons.IH map_of_config_refs_loop config_listed_refs_def
            table_extend_append)
  qed
qed

lemma concat_only_key:
  "distinct xs \<Longrightarrow> k \<in> set xs \<Longrightarrow> concat (map (\<lambda>n. if n = k then f n else []) xs) = f k"
proof (induction xs)
  case Nil
  then show ?case by simp
next
  case (Cons x xs)
  show ?case
  proof (cases "x = k")
    case True
    with Cons.prems have "k \<notin> set xs" by simp
    then have "concat (map (\<lambda>n. if n = k then f n else []) xs) = []"
      by (induction xs) auto
    with True show ?thesis by simp
  next
    case False
    with Cons show ?thesis by simp
  qed
qed

lemma config_aggregate_member:
  "(n, v) \<in> set tbl \<Longrightarrow> repo_get_remote_inherited repo n = Some rem \<Longrightarrow>
   \<lparr>remote = rem, priority = ostree_repo_finder_config_priority,
    ref_to_checksum = v, summary_last_modified = 0\<rparr> \<in> set (config_aggregate repo tbl)"
  by (induction repo tbl rule: config_aggregate.induct) (auto split: option.split)

lemma config_aggregate_priority:
  "res \<in> set (config_aggregate repo tbl) \<Longrightarrow> priority res = ostree_repo_finder_config_priority"
  by (induction repo tbl rule: config_aggregate.induct) (auto split: option.splits)

lemma mount_resolve_priority:
  "res \<in> set (ostree_repo_finder_mount_resolve_async fs volumes refs) \<Longrightarrow>
   priority res = ostree_repo_finder_mount_priority"
  by (auto simp: ostree_repo_finder_mount_resolve_async_def mount_volume_def mount_result_def
           split: option.splits)

section \<open>The claims\<close>

subsection \<open>C1: failures of single finders are absorbed\<close>




subsection \<open>C2: the key cascade of the comparator\<close>

text \<open>
  Claim C2 says that two results of equal priority whose timestamps are both non-zero
  and differ are ordered by timestamp, the older first. The comparator returns the
  difference of the two 64-bit timestamps converted to a \<^verbatim>\<open>gint\<close>, which keeps the
  low 32 bits only. For the timestamps \<open>2^32 + 1\<close> and \<open>1\<close> it returns \<open>0\<close> in
  both directions: the results count as equal, the older one is not put first, and the
  later keys (here the number of refs, 1 against 2) are not consulted either.
  (\<open>compare_cascade_in_range\<close> shows the cascade for differences that fit.)
\<close>

theorem compare_truncates_timestamp_difference:
  "sint (ostree_repo_finder_result_compare
           (Some (example_result ''file:///a'' 50 [(''r1'', None)] 4294967297))
           (Some (example_result ''file:///b'' 50 [(''r1'', None), (''r2'', None)] 1))) = 0 \<and>
   sint (ostree_repo_finder_result_compare
           (Some (example_result ''file:///b'' 50 [(''r1'', None), (''r2'', None)] 1))
           (Some (example_result ''file:///a'' 50 [(''r1'', None)] 4294967297))) = 0"
  by (simp add: ostree_repo_finder_result_compare_def example_result_def)

subsection \<open>C3: the state machine of the aggregation\<close>

text \<open>
  Claim C3 says that the counter of pending finders does not reach zero before every
  started finder has completed, and that the results are returned once, after that.
  The counter starts at 1 ``while setting up the loop'', but the loop increments it
  only after the call of \<^verbatim>\<open>resolve_async\<close>. For a finder whose \<^verbatim>\<open>resolve_async\<close>
  invokes the callback before it returns, the counter therefore goes from 1 to 0 inside
  the loop: the task returns the results of that finder alone while the second finder
  has not even been started, and the second finder's completion then finds the
  accumulator gone and reads through the \<^verbatim>\<open>NULL\<close> pointer. With such a finder alone,
  the same read happens at the end of set-up.
  (\<open>resolve_all_state_machine_deferred\<close> shows the state machine of the claim for
  finders whose completions all come after set-up.)
\<close>

theorem resolve_all_returns_during_setup:
  "ostree_repo_finder_resolve_all_async insertion_sort
     (Some [example_finder_at_once (Inr (example_mount_found # [])),
            example_finder_later ''OstreeRepoFinderConfig''])
     (Some [''a''])
     = ([example_finder_at_once (Inr (example_mount_found # [])),
         example_finder_later ''OstreeRepoFinderConfig''],
        Inr \<lparr>task_data = \<lparr>n_finders_pending = 1, results = None\<rparr>,
             task_returned = (example_mount_found # []) # []\<rparr>) \<and>
   resolve_all_run insertion_sort
     (Some [example_finder_at_once (Inr (example_mount_found # [])),
            example_finder_later ''OstreeRepoFinderConfig''])
     (Some [''a''])
     (Inr (example_config_found # []) # [])
     = Inl NullDereference \<and>
   ostree_repo_finder_resolve_all_async insertion_sort
     (Some [example_finder_at_once (Inr (example_mount_found # []))])
     (Some [''a''])
     = ([example_finder_at_once (Inr (example_mount_found # []))], Inl NullDereference)"
  by (simp add: resolve_all_run_def ostree_repo_finder_resolve_all_async_def
        is_valid_ref_array_def is_valid_ref_name_def example_finder_later_def
        example_finder_at_once_def
        resolve_all_cb_def resolve_all_finished_one_def Let_def
        array_concatenate_steal_def insertion_sort_def)

subsection \<open>C4: one result per repository on a volume\<close>

text \<open>
  Claim C4. On a volume that passes the checks, when at least one requested ref
  resolves to a repository URI, the finder emits exactly one result with that URI for
  the volume, and the ref list of that result consists of all the requested refs that
  resolve to the URI, in the order of the request.
\<close>

theorem mount_one_result_per_repository:
  assumes "mount_volume_open fs volume = Some (p, st)"
    and "r \<in> set refs" and "mount_resolve_ref fs p st r = Some uri"
  shows "filter (\<lambda>res. remote_name (remote res) = Some uri) (mount_volume fs refs volume) =
           [mount_result (uri, filter (\<lambda>r'. mount_resolve_ref fs p st r' = Some uri) refs)] \<and>
         map ref_to_checksum
           (filter (\<lambda>res. remote_name (remote res) = Some uri) (mount_volume fs refs volume)) =
           [filter (\<lambda>r'. mount_resolve_ref fs p st r' = Some uri) refs] \<and>
         r \<in> set (filter (\<lambda>r'. mount_resolve_ref fs p st r' = Some uri) refs)"
proof -
  from assms(2,3) have ne: "filter (\<lambda>r'. mount_resolve_ref fs p st r' = Some uri) refs \<noteq> []"
    by (auto simp: filter_empty_conv)
  then have "filter (\<lambda>res. remote_name (remote res) = Some uri) (mount_volume fs refs volume) =
           [mount_result (uri, filter (\<lambda>r'. mount_resolve_ref fs p st r' = Some uri) refs)]"
    by (simp add: mount_volume_results_for [OF assms(1)] table_extend_def)
  then show ?thesis
    using assms(2,3) by (simp add: mount_result_refs)
qed

text \<open>
  Witness for C4: \<^verbatim>\<open>a\<close> and \<^verbatim>\<open>b\<close> are links to the same repository, and the
  one result for it lists both.
\<close>

theorem mount_one_result_per_repository_witness:
  "map ref_to_checksum
     (filter (\<lambda>res. remote_name (remote res) = Some ''file:///media/usb/repo'')
        (mount_volume example_fs [''a'', ''b'', ''c''] example_volume)) =
     [''a'', ''b''] # [] \<and>
   map (\<lambda>res. remote_name (remote res))
     (mount_volume example_fs [''a'', ''b'', ''c''] example_volume) =
     [Some ''file:///media/usb/repo''] \<and>
   length (mount_volume example_fs [''a'', ''b'', ''c''] example_volume) = 1"
  using mount_one_result_per_repository [of example_fs example_volume "''/media/usb''"
          "\<lparr>st_mode_fmt = S_IFDIR, st_dev = 7\<rparr>" "''a''" "[''a'', ''b'', ''c'']"
          "''file:///media/usb/repo''"]
  by (simp add: mount_volume_open_def mount_resolve_ref_def repo_dir_path_of_def
        example_fs_def example_volume_def mount_volume_def supported_refs_add_def
        mount_result_def)

subsection \<open>C5: a ref on another device is skipped\<close>



subsection \<open>C6: the priorities of the two finders\<close>

text \<open>
  Claim C6 says that a result of the config finder is ordered before a result of the
  mount finder when the other keys tie. On the concrete inputs both finders emit one
  result for the request \<^verbatim>\<open>a\<close>, the two tie on the name, the timestamp and the
  number of refs, and the comparator does not order the config result first.
\<close>

theorem config_result_not_before_mount_result:
  "length (ostree_repo_finder_config_resolve_async example_repo [''a'']) = 1 \<and>
   length (ostree_repo_finder_mount_resolve_async example_fs [example_volume] [''a'']) = 1 \<and>
   remote_name (remote (hd (ostree_repo_finder_config_resolve_async example_repo [''a''])))
     = remote_name (remote (hd (ostree_repo_finder_mount_resolve_async example_fs [example_volume] [''a'']))) \<and>
   summary_last_modified (hd (ostree_repo_finder_config_resolve_async example_repo [''a''])) = 0 \<and>
   summary_last_modified (hd (ostree_repo_finder_mount_resolve_async example_fs [example_volume] [''a''])) = 0 \<and>
   \<not> sint (ostree_repo_finder_result_compare
             (Some (with_ref_to_checksum
                      (hd (ostree_repo_finder_config_resolve_async example_repo [''a'']))
                      [(''a'', None)]))
             (Some (with_ref_to_checksum
                      (hd (ostree_repo_finder_mount_resolve_async example_fs [example_volume] [''a'']))
                      [(''a'', None)]))) < 0"
  by (simp add: ostree_repo_finder_config_resolve_async_def
        ostree_repo_finder_mount_resolve_async_def g_hash_table_contains_def
        mount_volume_open_def mount_resolve_ref_def repo_dir_path_of_def
        example_fs_def example_volume_def example_repo_def mount_volume_def
        supported_refs_add_def mount_result_def with_ref_to_checksum_def
        ostree_repo_finder_result_compare_def ostree_repo_finder_mount_priority_def
        ostree_repo_finder_config_priority_def)

text \<open>
  Claim C6 as amended. Every result of the mount finder has priority 50 and every
  result of the config finder has priority 100, and the comparator orders any result
  of the mount finder before any result of the config finder, whatever their other
  keys: the mount finder has precedence.
\<close>

theorem mount_results_sort_before_config_results:
  assumes "m \<in> set (ostree_repo_finder_mount_resolve_async fs volumes refs)"
    and "c \<in> set (ostree_repo_finder_config_resolve_async repo refs')"
  shows "priority m = 50 \<and> priority c = 100 \<and>
         sint (ostree_repo_finder_result_compare
                 (Some (with_ref_to_checksum m tm)) (Some (with_ref_to_checksum c tc))) < 0 \<and>
         sint (ostree_repo_finder_result_compare
                 (Some (with_ref_to_checksum c tc)) (Some (with_ref_to_checksum m tm))) > 0"
proof -
  have pm: "priority m = 50"
    using mount_resolve_priority [OF assms(1)] by (simp add: ostree_repo_finder_mount_priority_def)
  have pc: "priority c = 100"
    using assms(2)
    by (simp add: ostree_repo_finder_config_resolve_async_def config_aggregate_priority
          ostree_repo_finder_config_priority_def)
  show ?thesis
    by (simp add: pm pc ostree_repo_finder_result_compare_def with_ref_to_checksum_def)
qed

text \<open>Witness for C6 as amended, on the concrete inputs.\<close>

theorem mount_results_sort_before_config_results_witness:
  "sint (ostree_repo_finder_result_compare
           (Some (with_ref_to_checksum (mount_result (''file:///media/usb/repo'', [''a'']))
                    [(''a'', None)]))
           (Some (with_ref_to_checksum
                    (hd (ostree_repo_finder_config_resolve_async example_repo [''a'']))
                    [(''a'', None)]))) = - 50 \<and>
   sint (ostree_repo_finder_result_compare
           (Some (with_ref_to_checksum
                    (hd (ostree_repo_finder_config_resolve_async example_repo [''a'']))
                    [(''a'', None)]))
           (Some (with_ref_to_checksum (mount_result (''file:///media/usb/repo'', [''a'']))
                    [(''a'', None)]))) = 50"
  using mount_results_sort_before_config_results [of
          "mount_result (''file:///media/usb/repo'', [''a''])" example_fs "[example_volume]"
          "[''a'']" "hd (ostree_repo_finder_config_resolve_async example_repo [''a''])"
          example_repo "[''a'']" "[(''a'', None)]" "[(''a'', None)]"]
  by (simp add: ostree_repo_finder_config_resolve_async_def
        ostree_repo_finder_mount_resolve_async_def g_hash_table_contains_def
        mount_volume_open_def mount_resolve_ref_def repo_dir_path_of_def
        example_fs_def example_volume_def example_repo_def mount_volume_def
        supported_refs_add_def mount_result_def with_ref_to_checksum_def
        ostree_repo_finder_result_compare_def ostree_repo_finder_mount_priority_def
        ostree_repo_finder_config_priority_def)

subsection \<open>C7: invalid arguments are rejected before any finder is started\<close>

text \<open>
  Claim C7 says that a request with an invalid ref name fails before any finder is
  invoked. The name that consists of the control character BEL is not a valid ref by
  the specification, yet for it the task is created and the finder is started.
\<close>

theorem resolve_all_starts_finder_for_control_char:
  "\<not> spec_is_valid_ref [CHR 0x07] \<and>
   ostree_repo_finder_resolve_all_async insertion_sort
     (Some [example_finder_later ''OstreeRepoFinderMount'']) (Some ([CHR 0x07] # []))
     = ([example_finder_later ''OstreeRepoFinderMount''],
        Inr \<lparr>task_data = \<lparr>n_finders_pending = 1, results = Some []\<rparr>, task_returned = []\<rparr>)"
  by (simp add: spec_is_valid_ref_def spec_ascii_printable_def
        ostree_repo_finder_resolve_all_async_def
        is_valid_ref_array_def is_valid_ref_name_def example_finder_later_def
        resolve_all_finished_one_def Let_def)

text \<open>
  Claim C7 as amended. When the array of finders is \<^verbatim>\<open>NULL\<close> or empty, or the array
  of refs is \<^verbatim>\<open>NULL\<close> or empty or holds a name that is empty or has a byte of 128 or
  more, \<^verbatim>\<open>ostree_repo_finder_resolve_all_async\<close> stops at one of its
  \<^verbatim>\<open>g_return_if_fail\<close> checks: it logs a critical message and returns at once. No
  finder has been started and no task exists, so that no completion changes this, the
  caller's callback is never invoked and no \<^verbatim>\<open>GError\<close> reaches the caller.
\<close>

theorem resolve_all_rejects_invalid_arguments:
  assumes "finders = None \<or> finders = Some [] \<or> refs = None \<or> refs = Some [] \<or>
           (\<exists>rs. refs = Some rs \<and>
              (\<exists>r\<in>set rs. r = [] \<or> (\<exists>c\<in>set r. 128 \<le> (of_char c :: nat))))"
  shows "\<exists>check.
           ostree_repo_finder_resolve_all_async ptr_sort finders refs
             = ([], Inl (ReturnIfFail check)) \<and>
           resolve_all_run ptr_sort finders refs outcomes = Inl (ReturnIfFail check)"
proof -
  have inv: "\<not> is_valid_ref_name (Some r)"
    if "r = [] \<or> (\<exists>c\<in>set r. 128 \<le> (of_char c :: nat))" for r
    using that g_str_is_ascii_high_byte [of r] by (auto simp: is_valid_ref_name_def)
  have "finders = None \<or> finders = Some [] \<or> \<not> is_valid_ref_array refs"
    using assms inv by (fastforce simp: is_valid_ref_array_iff list_all_iff)
  then have "\<exists>check. ostree_repo_finder_resolve_all_async ptr_sort finders refs
                 = ([], Inl (ReturnIfFail check))"
    by (auto simp: ostree_repo_finder_resolve_all_async_def split: option.split list.split)
  then show ?thesis by (auto simp: resolve_all_run_def)
qed

text \<open>
  Witness for C7 as amended: no finder; no ref; a ref with the two bytes of a
  non-ASCII character.
\<close>

theorem resolve_all_rejects_invalid_arguments_witness:
  "ostree_repo_finder_resolve_all_async insertion_sort (Some []) (Some [''a''])
     = ([], Inl (ReturnIfFail ''finders != NULL && finders[0] != NULL'')) \<and>
   ostree_repo_finder_resolve_all_async insertion_sort
     (Some [example_finder_later ''OstreeRepoFinderMount'']) (Some [])
     = ([], Inl (ReturnIfFail ''is_valid_ref_array (refs)'')) \<and>
   ostree_repo_finder_resolve_all_async insertion_sort
     (Some [example_finder_later ''OstreeRepoFinderMount''])
     (Some [''a'', [CHR ''b'', CHR 0xC3, CHR 0xA9] ])
     = ([], Inl (ReturnIfFail ''is_valid_ref_array (refs)'')) \<and>
   resolve_all_run insertion_sort
     (Some [example_finder_later ''OstreeRepoFinderMount''])
     (Some [''a'', [CHR ''b'', CHR 0xC3, CHR 0xA9] ]) []
     = Inl (ReturnIfFail ''is_valid_ref_array (refs)'')"
  using resolve_all_rejects_invalid_arguments [of "Some []" "Some [''a'']" insertion_sort "[]"]
        resolve_all_rejects_invalid_arguments
          [of "Some [example_finder_later ''OstreeRepoFinderMount'']" "Some []" insertion_sort "[]"]
        resolve_all_rejects_invalid_arguments
          [of "Some [example_finder_later ''OstreeRepoFinderMount'']"
              "Some [''a'', [CHR ''b'', CHR 0xC3, CHR 0xA9] ]" insertion_sort "[]"]
  by (auto simp add: ostree_repo_finder_resolve_all_async_def resolve_all_run_def
        is_valid_ref_array_def is_valid_ref_name_def)

subsection \<open>C8: the ref validator\<close>

text \<open>
  Claim C8 says that the validator accepts exactly the non-empty names of printable
  ASCII characters. The name that consists of the control character BEL is accepted
  by the validator and is not printable.
\<close>

theorem is_valid_ref_name_control_char:
  "is_valid_ref_name (Some [CHR 0x07]) \<noteq> spec_is_valid_ref [CHR 0x07]"
  by (simp add: is_valid_ref_name_def spec_is_valid_ref_def spec_ascii_printable_def)

text \<open>
  Claim C8 as amended. The validator accepts a name if and only if the pointer is not
  \<^verbatim>\<open>NULL\<close>, the name is non-empty and every byte of it is below 128; control
  characters are accepted.
\<close>

theorem is_valid_ref_name_ascii:
  "is_valid_ref_name ref_name =
     (case ref_name of
        None \<Rightarrow> False
      | Some s \<Rightarrow> s \<noteq> [] \<and> list_all (\<lambda>c. (of_char c :: nat) < 128) s)"
  by (simp add: is_valid_ref_name_def g_str_is_ascii_iff split: option.split)

text \<open>
  Witness for C8 as amended: a usual ref name and a name with the control character
  ESC are accepted; a name with a non-ASCII character, the empty name and \<^verbatim>\<open>NULL\<close>
  are rejected.
\<close>

theorem is_valid_ref_name_ascii_witness:
  "is_valid_ref_name (Some ''app/org.example.App/x86_64/stable'') \<and>
   is_valid_ref_name (Some [CHR 0x1B, CHR ''a'']) \<and>
   \<not> is_valid_ref_name (Some [CHR ''a'', CHR 0xC3, CHR 0xA9]) \<and>
   \<not> is_valid_ref_name (Some []) \<and> \<not> is_valid_ref_name None"
  by (simp add: is_valid_ref_name_ascii)

subsection \<open>C9: the comparator under a swap of its arguments\<close>

text \<open>
  Claim C9 says that \<open>compare a b\<close> is negative exactly when \<open>compare b a\<close> is
  positive. For two results of equal priority with the timestamps \<open>2^31 + 1\<close> and
  \<open>1\<close> the difference of the timestamps is \<open>2^31\<close> in one direction and
  \<open>2^64 - 2^31\<close> in the other; the low 32 bits of both are the most negative
  \<^verbatim>\<open>gint\<close>, so the comparator orders each of the two results before the other.
\<close>

theorem compare_negative_in_both_directions:
  "sint (ostree_repo_finder_result_compare
           (Some (example_result ''file:///a'' 50 [(''r1'', None)] 2147483649))
           (Some (example_result ''file:///b'' 50 [(''r1'', None)] 1))) < 0 \<and>
   sint (ostree_repo_finder_result_compare
           (Some (example_result ''file:///b'' 50 [(''r1'', None)] 1))
           (Some (example_result ''file:///a'' 50 [(''r1'', None)] 2147483649))) < 0"
  by (simp add: ostree_repo_finder_result_compare_def example_result_def)

subsection \<open>C10: a ref requested twice is listed twice\<close>

text \<open>
  Claim C10. The validation of the request accepts an array in which a name occurs
  more than once, and both finders list a ref in a result as often as it occurs in
  the request: for the mount finder in the result of the repository the ref resolves
  to, for the config finder in the result of a configured remote that lists the ref
  (the remote names being distinct).
\<close>

theorem duplicate_refs_are_kept:
  "is_valid_ref_array (Some refs) = (refs \<noteq> [] \<and> (\<forall>r'\<in>set refs. is_valid_ref_name (Some r'))) \<and>
   (mount_volume_open fs volume = Some (p, st) \<and> r \<in> set refs \<and>
    mount_resolve_ref fs p st r = Some uri \<longrightarrow>
      (\<exists>res\<in>set (mount_volume fs refs volume).
         remote_name (remote res) = Some uri \<and>
         count_list (ref_to_checksum res) r = count_list refs r)) \<and>
   (distinct (repo_remote_list repo) \<and> n \<in> set (repo_remote_list repo) \<and>
    repo_remote_list_refs repo n = Some remote_refs \<and> g_hash_table_contains remote_refs r \<and>
    r \<in> set refs \<and> repo_get_remote_inherited repo n = Some rem \<longrightarrow>
      (\<exists>res\<in>set (ostree_repo_finder_config_resolve_async repo refs).
         remote res = rem \<and>
         count_list (ref_to_checksum res) r = count_list refs r))"
proof (intro conjI impI)
  show "is_valid_ref_array (Some refs) = (refs \<noteq> [] \<and> (\<forall>r'\<in>set refs. is_valid_ref_name (Some r')))"
    by (simp add: is_valid_ref_array_iff list_all_iff)
next
  assume a: "mount_volume_open fs volume = Some (p, st) \<and> r \<in> set refs \<and>
    mount_resolve_ref fs p st r = Some uri"
  let ?rs = "filter (\<lambda>r'. mount_resolve_ref fs p st r' = Some uri) refs"
  from a have ne: "?rs \<noteq> []" by (auto simp: filter_empty_conv)
  have "filter (\<lambda>res. remote_name (remote res) = Some uri) (mount_volume fs refs volume) =
          [mount_result (uri, ?rs)]"
    using a ne by (simp add: mount_volume_results_for table_extend_def)
  then have "mount_result (uri, ?rs) \<in> set (filter (\<lambda>res. remote_name (remote res) = Some uri)
               (mount_volume fs refs volume))"
    by simp
  then have m: "mount_result (uri, ?rs) \<in> set (mount_volume fs refs volume)" by simp
  have "count_list (ref_to_checksum (mount_result (uri, ?rs))) r = count_list refs r"
    using a by (simp add: mount_result_refs count_list_filter)
  with m show "\<exists>res\<in>set (mount_volume fs refs volume).
         remote_name (remote res) = Some uri \<and>
         count_list (ref_to_checksum res) r = count_list refs r"
    by (intro bexI [of _ "mount_result (uri, ?rs)"]) (simp_all add: mount_result_name)
next
  assume a: "distinct (repo_remote_list repo) \<and> n \<in> set (repo_remote_list repo) \<and>
    repo_remote_list_refs repo n = Some remote_refs \<and> g_hash_table_contains remote_refs r \<and>
    r \<in> set refs \<and> repo_get_remote_inherited repo n = Some rem"
  let ?tbl = "config_remotes_loop repo refs (repo_remote_list repo) []"
  let ?rs = "filter (g_hash_table_contains remote_refs) refs"
  from a have ne: "?rs \<noteq> []" by (auto simp: filter_empty_conv)
  have "config_listed_refs repo refs n = ?rs"
    using a by (simp add: config_listed_refs_def)
  then have "map_of ?tbl n = Some ?rs"
    using a ne by (simp add: map_of_config_remotes_loop concat_only_key table_extend_def)
  then have "(n, ?rs) \<in> set ?tbl" by (rule map_of_SomeD)
  then have m: "\<lparr>remote = rem, priority = ostree_repo_finder_config_priority,
      ref_to_checksum = ?rs, summary_last_modified = 0\<rparr>
      \<in> set (ostree_repo_finder_config_resolve_async repo refs)"
    using a by (simp add: ostree_repo_finder_config_resolve_async_def config_aggregate_member)
  have "count_list ?rs r = count_list refs r"
    using a by (simp add: count_list_filter)
  with m show "\<exists>res\<in>set (ostree_repo_finder_config_resolve_async repo refs).
         remote res = rem \<and> count_list (ref_to_checksum res) r = count_list refs r"
    by (intro bexI [of _ "\<lparr>remote = rem, priority = ostree_repo_finder_config_priority,
      ref_to_checksum = ?rs, summary_last_modified = 0\<rparr>"]) simp_all
qed

text \<open>Witness for C10: the request \<^verbatim>\<open>a, a\<close> on the concrete inputs.\<close>

theorem duplicate_refs_are_kept_witness:
  "is_valid_ref_array (Some [''a'', ''a'']) \<and>
   (\<exists>res\<in>set (mount_volume example_fs [''a'', ''a''] example_volume).
      remote_name (remote res) = Some ''file:///media/usb/repo'' \<and>
      count_list (ref_to_checksum res) ''a'' = 2) \<and>
   (\<exists>res\<in>set (ostree_repo_finder_config_resolve_async example_repo [''a'', ''a'']).
      remote_name (remote res) = Some ''file:///media/usb/repo'' \<and>
      count_list (ref_to_checksum res) ''a'' = 2)"
  using duplicate_refs_are_kept [of "[''a'', ''a'']" example_fs example_volume "''/media/usb''"
          "\<lparr>st_mode_fmt = S_IFDIR, st_dev = 7\<rparr>" "''a''" "''file:///media/usb/repo''"
          example_repo "''file:///media/usb/repo''" "[(''a'', ''c0ffee'')]"
          "\<lparr>remote_name = Some ''file:///media/usb/repo'',
            remote_group = Some ''remote \"file:///media/usb/repo\"'',
            remote_options = [(''url'', ''https://example.org/repo'')]\<rparr>"]
  by (simp add: is_valid_ref_name_def ostree_repo_finder_config_resolve_async_def
        g_hash_table_contains_def mount_volume_open_def mount_resolve_ref_def
        repo_dir_path_of_def example_fs_def example_volume_def example_repo_def
        mount_volume_def supported_refs_add_def mount_result_def)

end
